theory Spec2Isabelle
  imports Complex_Main "HOL-Library.Sublist" "HOL-Library.Multiset"
begin

unbundle bit_operations_syntax

section \<open>formatBytes\<close>

text \<open>
  A JavaScript number is a binary64 value. The finite ones are rationals, so the model
  takes every rational as a finite number: the doubles are among them, and on a double
  that is at least 1024 the division by 1024 of the loop below is exact (it only lowers
  the exponent), as are the comparisons.
\<close>

datatype number = NaN | PosInfinity | NegInfinity | Finite rat

fun isFinite :: "number \<Rightarrow> bool" where
  "isFinite (Finite x) = True"
| "isFinite NaN = False"
| "isFinite PosInfinity = False"
| "isFinite NegInfinity = False"

definition units :: "string list" where
  "units = [''B'', ''KB'', ''MB'', ''GB'', ''TB'', ''PB'']"

text \<open>The while loop of formatBytes: \<open>value /= 1024; unitIndex += 1\<close>.\<close>

function scaleLoop :: "rat \<Rightarrow> nat \<Rightarrow> rat \<times> nat" where
  "scaleLoop val unitIndex =
     (if val \<ge> 1024 \<and> unitIndex < length units - 1
      then scaleLoop (val / 1024) (unitIndex + 1)
      else (val, unitIndex))"
  by pat_completeness auto
termination
  by (relation "measure (\<lambda>(val, unitIndex). length units - 1 - unitIndex)") auto

declare scaleLoop.simps [simp del]

subsection \<open>Number.prototype.toFixed\<close>

text \<open>
  toFixed is a builtin of the language, not code of the repository; it is modelled from
  the ECMAScript specification (Number.prototype.toFixed, Number::toString).
\<close>

definition digit :: "nat \<Rightarrow> char" where
  "digit d = ''0123456789'' ! d"

fun decimal :: "nat \<Rightarrow> string" where
  "decimal n = (if n < 10 then [digit n] else decimal (n div 10) @ [digit (n mod 10)])"

declare decimal.simps [simp del]

fun bitLength :: "nat \<Rightarrow> nat" where
  "bitLength n = (if n = 0 then 0 else Suc (bitLength (n div 2)))"

declare bitLength.simps [simp del]

text \<open>
  The binary64 value nearest to a natural number, ties to the even significand (the
  rounding the ECMAScript specification writes as a blackboard F), for magnitudes
  below the overflow threshold.
\<close>

definition roundDouble :: "nat \<Rightarrow> nat" where
  "roundDouble v =
     (let b = bitLength v in
      if b \<le> 53 then v
      else (let ulp = 2 ^ (b - 53); q = v div ulp; r = v mod ulp in
            if 2 * r > ulp \<or> (2 * r = ulp \<and> odd q) then (q + 1) * ulp else q * ulp))"

text \<open>
  Number::toString for an integer-valued double \<open>x\<close> of \<open>d\<close> decimal digits: the least
  number \<open>k\<close> of significant digits for which some \<open>s\<close> of \<open>k\<close> digits has
  \<open>s * 10 ^ (n - k)\<close> round to \<open>x\<close>; of two such \<open>s\<close> the one nearer to \<open>x\<close>, the even one
  on a tie. The result is the pair \<open>(s, n)\<close>.
\<close>

function shortestDigits :: "nat \<Rightarrow> nat \<Rightarrow> nat \<Rightarrow> nat \<times> nat" where
  "shortestDigits x d k =
     (if d \<le> k then (x, d)
      else (let p = 10 ^ (d - k);
                lo = x div p;
                hi = lo + 1;
                okLo = (lo \<noteq> 0 \<and> roundDouble (lo * p) = x);
                okHi = (roundDouble (hi * p) = x);
                useLo = (okLo \<and> (\<not> okHi \<or> x - lo * p < hi * p - x
                                   \<or> (x - lo * p = hi * p - x \<and> even lo)))
            in if useLo then (lo, d)
               else if okHi then (if hi = 10 ^ k then (10 ^ (k - 1), d + 1) else (hi, d))
               else shortestDigits x d (k + 1)))"
  by pat_completeness auto
termination
  by (relation "measure (\<lambda>(x, d, k). d - k)") auto

declare shortestDigits.simps [simp del]

text \<open>
  Number::toString on an integer-valued double that is at least \<open>10 ^ 21\<close>: there the
  decimal exponent \<open>n\<close> is above 21, and the digits are written in exponential notation.
\<close>

definition numberToStringLarge :: "nat \<Rightarrow> string" where
  "numberToStringLarge x =
     (let (s, n) = shortestDigits x (length (decimal x)) 1;
          ds = decimal s;
          e = ''e+'' @ decimal (n - 1)
      in if length ds = 1 then ds @ e else [hd ds] @ ''.'' @ tl ds @ e)"

text \<open>
  \<open>toFixed x f\<close> for a finite \<open>x\<close>: from \<open>10 ^ 21\<close> on it is Number::toString; below, the
  integer \<open>n\<close> for which \<open>n / 10 ^ f\<close> is nearest to \<open>x\<close> (the larger of two), written with
  \<open>f\<close> digits after the point.
\<close>

definition toFixed :: "rat \<Rightarrow> nat \<Rightarrow> string" where
  "toFixed x0 f =
     (let s = (if x0 < 0 then ''-'' else '''');
          x = (if x0 < 0 then - x0 else x0)
      in if x \<ge> 10 ^ 21 then s @ numberToStringLarge (nat \<lfloor>x\<rfloor>)
         else (let n = nat \<lfloor>x * 10 ^ f + 1 / 2\<rfloor>;
                   m = decimal n
               in if f \<noteq> 0
                  then (let k = length m;
                            m' = (if k \<le> f then replicate (f + 1 - k) (CHR ''0'') @ m else m);
                            k' = (if k \<le> f then f + 1 else k)
                        in s @ take (k' - f) m' @ ''.'' @ drop (k' - f) m')
                  else s @ m))"

subsection \<open>The function\<close>

definition formatBytes :: "number \<Rightarrow> string" where
  "formatBytes bytes =
     (case bytes of
        Finite b \<Rightarrow>
          if b < 0 then ''0 B''
          else (let (val, unitIndex) = scaleLoop b 0;
                    formatted = (if val \<ge> 100 \<or> unitIndex = 0 then toFixed val 0
                                 else toFixed val 1)
                in formatted @ '' '' @ units ! unitIndex)
      | _ \<Rightarrow> ''0 B'')"

subsection \<open>The rendering rule in the words of the specification\<close>

text \<open>
  The unit is the largest of B, KB, MB, GB, TB, PB in which the scaled value is at least
  1 (PB at the most); the value scaled to it is written with no fractional digit when it
  is at least 100 or the unit is bytes, and with one fractional digit otherwise, rounded
  to the nearest (a half goes up).
\<close>

definition spec_unitIndex :: "rat \<Rightarrow> nat" where
  "spec_unitIndex b =
     (if b < 1024 then 0 else if b < 1024 ^ 2 then 1 else if b < 1024 ^ 3 then 2
      else if b < 1024 ^ 4 then 3 else if b < 1024 ^ 5 then 4 else 5)"

definition roundHalfUp :: "rat \<Rightarrow> nat" where
  "roundHalfUp v = nat \<lfloor>v + 1 / 2\<rfloor>"

definition spec_noFractionDigit :: "rat \<Rightarrow> string" where
  "spec_noFractionDigit v = decimal (roundHalfUp v)"

definition spec_oneFractionDigit :: "rat \<Rightarrow> string" where
  "spec_oneFractionDigit v =
     decimal (roundHalfUp (10 * v) div 10) @ ''.'' @ [digit (roundHalfUp (10 * v) mod 10)]"

definition spec_formatBytes :: "rat \<Rightarrow> string" where
  "spec_formatBytes b =
     (let k = spec_unitIndex b; v = b / 1024 ^ k
      in (if 100 \<le> v \<or> k = 0 then spec_noFractionDigit v else spec_oneFractionDigit v)
         @ '' '' @ units ! k)"

section \<open>The workspace size calculator\<close>

subsection \<open>The interface of the host: Uris, file types, the file system, the token\<close>

text \<open>
  A Uri is modelled by its path, a list of segments. \<open>Uri.joinPath\<close> appends the entry's
  name; \<open>toString\<close>, the key of the visited set, identifies the Uri: two Uris have the same
  string exactly when they have the same path, so the visited set holds the paths.
\<close>

type_synonym Uri = "string list"

definition joinPath :: "Uri \<Rightarrow> string \<Rightarrow> Uri" where
  "joinPath base nm = base @ [nm]"

text \<open>The bit mask \<open>vscode.FileType\<close>.\<close>

definition Unknown :: nat where "Unknown = 0"
definition File :: nat where "File = 1"
definition Directory :: nat where "Directory = 2"
definition SymbolicLink :: nat where "SymbolicLink = 64"

record FileStat =
  stat_type :: nat
  stat_size :: nat

text \<open>
  \<open>vscode.workspace.fs\<close>: \<open>readDirectory\<close> and \<open>stat\<close> either resolve or throw (\<open>None\<close>). The
  file system does not change during a scan. Byte counts are natural numbers: the sums of
  the source are sums of doubles, exact as long as they stay below \<open>2 ^ 53\<close>.
\<close>

record FileSystem =
  readDirectory :: "Uri \<Rightarrow> (string \<times> nat) list option"
  stat :: "Uri \<Rightarrow> FileStat option"

text \<open>
  A task reads \<open>token.isCancellationRequested\<close> between its suspension points; the value
  can change only while the task is suspended. The token is the function from the number
  of suspension points the task has passed (its clock) to the value it reads then. A
  token that is never cancelled is \<open>\<lambda>_. False\<close>; one cancelled before the call is true
  at clock 0.
\<close>

type_synonym CancellationToken = "nat \<Rightarrow> bool"

record WorkspaceFolder =
  uri :: Uri
  folderName :: string
  folderIndex :: nat

record FolderSizeResult =
  folder :: WorkspaceFolder
  folderSize :: nat

record WorkspaceSizeCalculatorOptions =
  statConcurrency :: "int option"

definition DEFAULT_CONCURRENCY :: int where
  "DEFAULT_CONCURRENCY = 32"

text \<open>
  The field \<open>this.statConcurrency\<close> that the constructor computes from the options. The
  configured value is an integer.
\<close>

definition thisStatConcurrency :: "WorkspaceSizeCalculatorOptions \<Rightarrow> nat" where
  "thisStatConcurrency options =
     nat (max 1 (case statConcurrency options of None \<Rightarrow> DEFAULT_CONCURRENCY | Some c \<Rightarrow> c))"

subsection \<open>The state of one folder's scan\<close>

text \<open>
  The calls to the file system are recorded as they are issued: a directory listing, or
  the stat calls that one \<open>Promise.all\<close> issues together.
\<close>

datatype fsCall = ReadDirectory Uri | StatBatch "Uri list"

record scan =
  totalSize :: nat
  pendingDirectories :: "Uri list"
  visitedDirectories :: "Uri set"
  clock :: nat
  calls :: "fsCall list"

text \<open>
  A stat request carries one of two closures: the one queued for an entry listed as a
  file, and the one queued for an entry of unknown type.
\<close>

datatype resultHandler = FileEntry | UnknownEntry

datatype StatRequest = StatRequest (requestUri: Uri) (onResult: resultHandler)

fun applyResult :: "StatRequest \<Rightarrow> FileStat option \<Rightarrow> scan \<Rightarrow> scan" where
  "applyResult (StatRequest entryUri FileEntry) st s =
     (case st of
        None \<Rightarrow> s
      | Some fstat \<Rightarrow>
          if stat_type fstat AND File \<noteq> 0
          then s\<lparr>totalSize := totalSize s + stat_size fstat\<rparr>
          else s)"
| "applyResult (StatRequest entryUri UnknownEntry) st s =
     (case st of
        None \<Rightarrow> s
      | Some fstat \<Rightarrow>
          if stat_type fstat AND Directory \<noteq> 0
          then s\<lparr>pendingDirectories := pendingDirectories s @ [entryUri]\<rparr>
          else if stat_type fstat AND File \<noteq> 0
          then s\<lparr>totalSize := totalSize s + stat_size fstat\<rparr>
          else s)"

subsection \<open>processStatRequests\<close>

text \<open>
  The loop over the chunks. The callbacks of \<open>slice.map\<close> run to their first await one
  after the other, at the clock of the loop test; the await of \<open>Promise.all\<close> is one
  suspension point.
\<close>

function statChunks ::
  "WorkspaceSizeCalculatorOptions \<Rightarrow> FileSystem \<Rightarrow> CancellationToken \<Rightarrow>
   StatRequest list \<Rightarrow> nat \<Rightarrow> scan \<Rightarrow> scan" where
  "statChunks options fs token requests i s =
     (if i < length requests \<and> \<not> token (clock s)
      then (let slice = take (thisStatConcurrency options) (drop i requests);
                stats = map (\<lambda>request. if token (clock s) then None
                                        else stat fs (requestUri request)) slice;
                issued = [requestUri request. request \<leftarrow> slice, \<not> token (clock s)];
                s1 = s\<lparr>clock := clock s + 1, calls := calls s @ [StatBatch issued]\<rparr>
            in if token (clock s1) then s1
               else statChunks options fs token requests (i + thisStatConcurrency options)
                      (fold (\<lambda>(request, st). applyResult request st) (zip slice stats) s1))
      else s)"
  by pat_completeness auto
termination
  by (relation "measure (\<lambda>(options, fs, token, requests, i, s). length requests - i)")
    (auto simp: thisStatConcurrency_def)

declare statChunks.simps [simp del]

definition processStatRequests ::
  "WorkspaceSizeCalculatorOptions \<Rightarrow> FileSystem \<Rightarrow> CancellationToken \<Rightarrow>
   StatRequest list \<Rightarrow> scan \<Rightarrow> scan" where
  "processStatRequests options fs token requests s =
     (if requests = [] \<or> token (clock s) then s
      else statChunks options fs token requests 0 s)"

subsection \<open>calculateFolderSize\<close>

text \<open>The for loop over the entries of one listing; it has no suspension point.\<close>

fun classifyEntries ::
  "CancellationToken \<Rightarrow> Uri \<Rightarrow> (string \<times> nat) list \<Rightarrow> scan \<Rightarrow> StatRequest list \<Rightarrow>
   scan \<times> StatRequest list" where
  "classifyEntries token currentDirectory [] s requests = (s, requests)"
| "classifyEntries token currentDirectory ((nm, ty) # entries) s requests =
     (if token (clock s) then (s, requests)
      else (let entryUri = joinPath currentDirectory nm in
            if ty AND Directory \<noteq> 0
            then classifyEntries token currentDirectory entries
                   (s\<lparr>pendingDirectories := pendingDirectories s @ [entryUri]\<rparr>) requests
            else if ty AND File \<noteq> 0
            then classifyEntries token currentDirectory entries s
                   (requests @ [StatRequest entryUri FileEntry])
            else if ty AND SymbolicLink \<noteq> 0
            then classifyEntries token currentDirectory entries s requests
            else classifyEntries token currentDirectory entries s
                   (requests @ [StatRequest entryUri UnknownEntry])))"

text \<open>
  The body of the while loop, from the pop to the end of the awaited processStatRequests;
  every \<open>continue\<close> ends it early.
\<close>

definition iteration ::
  "WorkspaceSizeCalculatorOptions \<Rightarrow> FileSystem \<Rightarrow> CancellationToken \<Rightarrow> scan \<Rightarrow> scan" where
  "iteration options fs token s =
     (if pendingDirectories s = [] then s
      else (let currentDirectory = last (pendingDirectories s);
                s1 = s\<lparr>pendingDirectories := butlast (pendingDirectories s)\<rparr>
            in if currentDirectory \<in> visitedDirectories s1 then s1
               else (let s2 = s1\<lparr>visitedDirectories :=
                                    insert currentDirectory (visitedDirectories s1)\<rparr>;
                         s3 = s2\<lparr>clock := clock s2 + 1,
                                 calls := calls s2 @ [ReadDirectory currentDirectory]\<rparr>
                     in case readDirectory fs currentDirectory of
                          None \<Rightarrow> s3
                        | Some entries \<Rightarrow>
                            (let (s4, requests) =
                                   classifyEntries token currentDirectory entries s3 [];
                                 s5 = processStatRequests options fs token requests s4
                             in s5\<lparr>clock := clock s5 + 1\<rparr>))))"

partial_function (option) folderLoop ::
  "WorkspaceSizeCalculatorOptions \<Rightarrow> FileSystem \<Rightarrow> CancellationToken \<Rightarrow> scan \<Rightarrow>
   scan option" where
  "folderLoop options fs token s =
     (if pendingDirectories s \<noteq> [] \<and> \<not> token (clock s)
      then folderLoop options fs token (iteration options fs token s)
      else Some s)"

definition initialScan :: "WorkspaceFolder \<Rightarrow> scan" where
  "initialScan fld =
     \<lparr>totalSize = 0, pendingDirectories = [uri fld], visitedDirectories = {},
      clock = 0, calls = []\<rparr>"

text \<open>
  The scan of one folder returns its final state, or never returns (\<open>None\<close>);
  calculateFolderSize returns the total of that state.
\<close>

definition scanFolder ::
  "WorkspaceSizeCalculatorOptions \<Rightarrow> FileSystem \<Rightarrow> CancellationToken \<Rightarrow> WorkspaceFolder \<Rightarrow>
   scan option" where
  "scanFolder options fs token fld = folderLoop options fs token (initialScan fld)"

definition calculateFolderSize ::
  "WorkspaceSizeCalculatorOptions \<Rightarrow> FileSystem \<Rightarrow> CancellationToken \<Rightarrow> WorkspaceFolder \<Rightarrow>
   nat option" where
  "calculateFolderSize options fs token fld =
     map_option totalSize (scanFolder options fs token fld)"

subsection \<open>calculate\<close>

text \<open>
  \<open>Promise.all\<close> resolves with the results in the order of the tasks, once every task has
  resolved.
\<close>

fun promiseAll :: "'a option list \<Rightarrow> 'a list option" where
  "promiseAll [] = Some []"
| "promiseAll (task # tasks) =
     (case task of
        None \<Rightarrow> None
      | Some r \<Rightarrow> (case promiseAll tasks of None \<Rightarrow> None | Some rs \<Rightarrow> Some (r # rs)))"

definition calculate ::
  "WorkspaceSizeCalculatorOptions \<Rightarrow> FileSystem \<Rightarrow> CancellationToken \<Rightarrow>
   WorkspaceFolder list \<Rightarrow> FolderSizeResult list option" where
  "calculate options fs token folders =
     promiseAll
       (map (\<lambda>fld. map_option (\<lambda>sz. \<lparr>folder = fld, folderSize = sz\<rparr>)
                     (calculateFolderSize options fs token fld))
            folders)"


section \<open>Directory trees\<close>

text \<open>
  A tree of regular files and directories: a file has its size, a directory its named
  entries. The tree is the whole file system, and its root has the empty path.
\<close>

datatype node = FileNode nat | DirectoryNode "(string \<times> node) list"


fun nodeType :: "node \<Rightarrow> nat" where
  "nodeType (FileNode sz) = File"
| "nodeType (DirectoryNode es) = Directory"

text \<open>The names of the entries of one directory are distinct.\<close>

fun wellFormed :: "node \<Rightarrow> bool" where
  "wellFormed (FileNode sz) = True"
| "wellFormed (DirectoryNode es) =
     (distinct (map fst es) \<and> (\<forall>e \<in> set es. wellFormed (snd e)))"


fun entry :: "string \<times> node \<Rightarrow> string \<times> nat" where
  "entry (nm, c) = (nm, nodeType c)"




section \<open>Notions the properties are stated with\<close>

definition neverCancelled :: CancellationToken where
  "neverCancelled = (\<lambda>c. False)"

text \<open>The consecutive chunks of a list, each of \<open>n\<close> elements but the last.\<close>

function chunksOf :: "nat \<Rightarrow> 'a list \<Rightarrow> 'a list list" where
  "chunksOf n xs = (if n = 0 \<or> xs = [] then [] else take n xs # chunksOf n (drop n xs))"
  by pat_completeness auto
termination
  by (relation "measure (\<lambda>(n, xs). length xs)") auto

declare chunksOf.simps [simp del]

text \<open>
  What the answer to one stat request adds to the running total (nothing when the stat
  call fails), and the directory it adds to the frontier.
\<close>

definition statContribution :: "FileSystem \<Rightarrow> StatRequest \<Rightarrow> nat" where
  "statContribution fs request =
     (case stat fs (requestUri request) of
        None \<Rightarrow> 0
      | Some fstat \<Rightarrow>
          (case onResult request of
             FileEntry \<Rightarrow> if stat_type fstat AND File \<noteq> 0 then stat_size fstat else 0
           | UnknownEntry \<Rightarrow>
               if stat_type fstat AND Directory = 0 \<and> stat_type fstat AND File \<noteq> 0
               then stat_size fstat else 0))"

definition statDiscovery :: "FileSystem \<Rightarrow> StatRequest \<Rightarrow> Uri list" where
  "statDiscovery fs request =
     (case stat fs (requestUri request) of
        None \<Rightarrow> []
      | Some fstat \<Rightarrow>
          if onResult request = UnknownEntry \<and> stat_type fstat AND Directory \<noteq> 0
          then [requestUri request] else [])"

text \<open>The directories a scan has listed, in the order of the listings.\<close>

fun listed :: "fsCall list \<Rightarrow> Uri list" where
  "listed [] = []"
| "listed (ReadDirectory u # cs) = u # listed cs"
| "listed (StatBatch us # cs) = listed cs"

text \<open>The answers to a list of stat requests, applied in order.\<close>

definition applyAll :: "FileSystem \<Rightarrow> StatRequest list \<Rightarrow> scan \<Rightarrow> scan" where
  "applyAll fs requests s =
     fold (\<lambda>request. applyResult request (stat fs (requestUri request))) requests s"

text \<open>The batches of stat calls for a list of requests cut into chunks of \<open>n\<close>.\<close>

definition batches :: "nat \<Rightarrow> StatRequest list \<Rightarrow> fsCall list" where
  "batches n requests = map (\<lambda>chunk. StatBatch (map requestUri chunk)) (chunksOf n requests)"

text \<open>
  The directories that the classification of a listing pushes, and the stat requests
  that it queues.
\<close>

fun pushed :: "Uri \<Rightarrow> (string \<times> nat) list \<Rightarrow> Uri list" where
  "pushed cur [] = []"
| "pushed cur ((nm, ty) # entries) =
     (if ty AND Directory \<noteq> 0 then joinPath cur nm # pushed cur entries
      else pushed cur entries)"

fun queued :: "Uri \<Rightarrow> (string \<times> nat) list \<Rightarrow> StatRequest list" where
  "queued cur [] = []"
| "queued cur ((nm, ty) # entries) =
     (if ty AND Directory \<noteq> 0 then queued cur entries
      else if ty AND File \<noteq> 0 then StatRequest (joinPath cur nm) FileEntry # queued cur entries
      else if ty AND SymbolicLink \<noteq> 0 then queued cur entries
      else StatRequest (joinPath cur nm) UnknownEntry # queued cur entries)"




text \<open>
  A workspace \<open>w\<close> whose listing names the directory \<open>d\<close> twice; \<open>d\<close> holds one file of 5
  bytes.
\<close>

definition twoPathsFs :: FileSystem where
  "twoPathsFs =
     \<lparr>readDirectory = (\<lambda>u. if u = [''w''] then Some [(''d'', Directory), (''d'', Directory)]
                            else if u = [''w'', ''d''] then Some [(''f'', File)]
                            else None),
      stat = (\<lambda>u. if u = [''w'', ''d'', ''f''] then Some \<lparr>stat_type = File, stat_size = 5\<rparr>
                   else None)\<rparr>"

definition workspaceW :: WorkspaceFolder where
  "workspaceW = \<lparr>uri = [''w''], folderName = ''w'', folderIndex = 0\<rparr>"

definition defaultOptions :: WorkspaceSizeCalculatorOptions where
  "defaultOptions = \<lparr>statConcurrency = None\<rparr>"

text \<open>
  A workspace \<open>w\<close> with three entries listed as files, of 10, 20 and 30 bytes; the stat of the
  second one fails.
\<close>

definition failingStatFs :: FileSystem where
  "failingStatFs =
     \<lparr>readDirectory = (\<lambda>u. if u = [''w''] then Some [(''a'', File), (''b'', File), (''c'', File)]
                            else None),
      stat = (\<lambda>u. if u = [''w'', ''a''] then Some \<lparr>stat_type = File, stat_size = 10\<rparr>
                   else if u = [''w'', ''c''] then Some \<lparr>stat_type = File, stat_size = 30\<rparr>
                   else None)\<rparr>"









text \<open>The state after at most \<open>n\<close> iterations of the while loop of calculateFolderSize.\<close>

fun iterations ::
  "WorkspaceSizeCalculatorOptions \<Rightarrow> FileSystem \<Rightarrow> CancellationToken \<Rightarrow> nat \<Rightarrow> scan \<Rightarrow> scan" where
  "iterations options fs token 0 s = s"
| "iterations options fs token (Suc n) s =
     (if pendingDirectories s \<noteq> [] \<and> \<not> token (clock s)
      then iterations options fs token n (iteration options fs token s)
      else s)"

text \<open>The paths a scan has issued a stat call for.\<close>

fun statted :: "fsCall list \<Rightarrow> Uri list" where
  "statted [] = []"
| "statted (ReadDirectory u # cs) = statted cs"
| "statted (StatBatch us # cs) = us @ statted cs"

text \<open>
  The contents of a directory: what its listing, classified and statted in full, adds to
  the total.
\<close>

definition listingContribution :: "FileSystem \<Rightarrow> Uri \<Rightarrow> nat" where
  "listingContribution fs d =
     (case readDirectory fs d of
        None \<Rightarrow> 0
      | Some entries \<Rightarrow> (\<Sum>r \<leftarrow> queued d entries. statContribution fs r))"

text \<open>
  The invariant of the visited set: the directories listed so far are the visited ones,
  none was listed twice, and the total holds at most the contents of each of them, once.
\<close>

definition visitedInvariant :: "FileSystem \<Rightarrow> scan \<Rightarrow> bool" where
  "visitedInvariant fs s \<longleftrightarrow>
     distinct (listed (calls s)) \<and>
     set (listed (calls s)) = visitedDirectories s \<and>
     totalSize s \<le> (\<Sum>d \<leftarrow> listed (calls s). listingContribution fs d)"


section \<open>Properties of formatBytes\<close>

lemma length_units: "length units = 6"
  by (simp add: units_def)

lemma scaleLoop_stop: "\<not> (1024 \<le> v \<and> i < 5) \<Longrightarrow> scaleLoop v i = (v, i)"
  by (subst scaleLoop.simps) (auto simp: length_units)

lemma scaleLoop_step: "1024 \<le> v \<Longrightarrow> i < 5 \<Longrightarrow> scaleLoop v i = scaleLoop (v / 1024) (i + 1)"
  by (subst scaleLoop.simps) (simp add: length_units)

lemma scaleLoop_unitIndex:
  "scaleLoop b 0 = (b / 1024 ^ spec_unitIndex b, spec_unitIndex b)"
proof -
  consider "b < 1024" | "1024 \<le> b" "b < 1024 ^ 2" | "1024 ^ 2 \<le> b" "b < 1024 ^ 3"
    | "1024 ^ 3 \<le> b" "b < 1024 ^ 4" | "1024 ^ 4 \<le> b" "b < 1024 ^ 5" | "1024 ^ 5 \<le> b"
    by linarith
  then show ?thesis
  proof cases
    case 1
    then show ?thesis by (simp add: spec_unitIndex_def scaleLoop_stop)
  next
    case 2
    then show ?thesis by (simp add: spec_unitIndex_def scaleLoop_step scaleLoop_stop)
  next
    case 3
    then show ?thesis by (simp add: spec_unitIndex_def scaleLoop_step scaleLoop_stop)
  next
    case 4
    then show ?thesis by (simp add: spec_unitIndex_def scaleLoop_step scaleLoop_stop)
  next
    case 5
    then show ?thesis by (simp add: spec_unitIndex_def scaleLoop_step scaleLoop_stop)
  next
    case 6
    then show ?thesis by (simp add: spec_unitIndex_def scaleLoop_step scaleLoop_stop)
  qed
qed

lemma length_decimal_pos: "0 < length (decimal n)"
  by (subst decimal.simps) simp

lemma length_decimal_le_1: "length (decimal n) \<le> Suc 0 \<longleftrightarrow> n < 10"
proof
  assume "length (decimal n) \<le> Suc 0"
  then show "n < 10"
    using length_decimal_pos [of "n div 10"] by (subst (asm) decimal.simps) (auto split: if_splits)
next
  assume "n < 10"
  then show "length (decimal n) \<le> Suc 0" by (subst decimal.simps) simp
qed

lemma toFixed_0: "0 \<le> v \<Longrightarrow> v < 10 ^ 21 \<Longrightarrow> toFixed v 0 = spec_noFractionDigit v"
  by (simp add: toFixed_def spec_noFractionDigit_def roundHalfUp_def)

lemma toFixed_1:
  assumes "0 \<le> v" "v < 10 ^ 21"
  shows "toFixed v (Suc 0) = spec_oneFractionDigit v"
proof -
  define n where "n = nat \<lfloor>v * 10 + 1 / 2\<rfloor>"
  have t: "toFixed v (Suc 0) =
      (let m = decimal n; k = length m;
           m' = (if k \<le> 1 then replicate (2 - k) (CHR ''0'') @ m else m);
           k' = (if k \<le> 1 then 2 else k)
       in take (k' - 1) m' @ ''.'' @ drop (k' - 1) m')"
    using assms by (simp add: toFixed_def n_def Let_def)
  have s: "spec_oneFractionDigit v = decimal (n div 10) @ ''.'' @ [digit (n mod 10)]"
    by (simp add: spec_oneFractionDigit_def roundHalfUp_def n_def mult.commute)
  show ?thesis
  proof (cases "n < 10")
    case True
    then have "decimal n = [digit n]" by (subst decimal.simps) simp
    moreover have "decimal (n div 10) = [digit 0]" using True by (subst decimal.simps) simp
    ultimately show ?thesis using True by (simp add: t s digit_def)
  next
    case False
    then have d: "decimal n = decimal (n div 10) @ [digit (n mod 10)]"
      by (subst decimal.simps) simp
    have "\<not> length (decimal n) \<le> 1" using False length_decimal_le_1 [of n] by simp
    then show ?thesis
      by (simp add: t s Let_def) (simp add: d)
  qed
qed

lemma digit_is_digit: "d < 10 \<Longrightarrow> digit d \<in> set ''0123456789''"
  unfolding digit_def by (intro nth_mem) simp

lemma decimal_digits: "set (decimal n) \<subseteq> set ''0123456789''"
proof (induction n rule: decimal.induct)
  case (1 n)
  show ?case
  proof (cases "n < 10")
    case True
    then show ?thesis
      using digit_is_digit [of n] by (subst decimal.simps) simp
  next
    case False
    then show ?thesis
      using "1.IH" digit_is_digit [of "n mod 10"] by (subst decimal.simps) simp
  qed
qed

lemma decimal_no_point: "CHR ''.'' \<notin> set (decimal n)"
  using decimal_digits [of n] by auto

lemma formatBytes_spec:
  assumes "0 \<le> b" "b < 10 ^ 21 * 1024 ^ 5"
  shows "formatBytes (Finite b) = spec_formatBytes b"
proof -
  define k where "k = spec_unitIndex b"
  define v where "v = b / 1024 ^ k"
  have v0: "0 \<le> v" using assms by (simp add: v_def)
  have "v < 10 ^ 21"
  proof (cases "k = 5")
    case True
    then show ?thesis using assms by (simp add: v_def field_simps)
  next
    case False
    then have "b < 1024 * 1024 ^ k"
      by (simp add: k_def spec_unitIndex_def split: if_splits)
    then have "v < 1024" by (simp add: v_def field_simps)
    then show ?thesis by simp
  qed
  then show ?thesis
    using assms v0
    by (simp add: formatBytes_def spec_formatBytes_def scaleLoop_unitIndex toFixed_0 toFixed_1
        k_def [symmetric] v_def [symmetric] Let_def)
qed

lemma formatBytes_negative: "b < 0 \<Longrightarrow> formatBytes (Finite b) = ''0 B''"
  by (simp add: formatBytes_def)

lemma formatBytes_not_finite: "\<not> isFinite n \<Longrightarrow> formatBytes n = ''0 B''"
  by (cases n) (simp_all add: formatBytes_def)

lemma floor_rat_numeral: "\<lfloor>numeral a / numeral b :: rat\<rfloor> = numeral a div numeral b"
  using floor_divide_of_int_eq [of "numeral a" "numeral b", where ?'a = rat] by simp

lemma floor_rat_one: "\<lfloor>1 / numeral b :: rat\<rfloor> = 1 div numeral b"
  using floor_divide_of_int_eq [of 1 "numeral b", where ?'a = rat] by simp

lemmas formatBytes_eval =
  formatBytes_def scaleLoop.simps units_def toFixed_def decimal.simps digit_def
  floor_rat_numeral floor_rat_one Let_def

lemmas spec_formatBytes_eval =
  spec_formatBytes_def spec_unitIndex_def spec_noFractionDigit_def spec_oneFractionDigit_def
  roundHalfUp_def units_def decimal.simps digit_def floor_rat_numeral floor_rat_one Let_def

text \<open>
  C3 (as amended). formatBytes(0) is "0 B", formatBytes(1023) is "1023 B",
  formatBytes(1024) is "1.0 KB", formatBytes(1536) is "1.5 KB", formatBytes(1048576) is
  "1.0 MB", and every negative and every non-finite input gives "0 B". A value below 100
  in a unit above bytes always carries its one fractional digit, a zero included.
\<close>

theorem formatBytes_examples:
  "formatBytes (Finite 0) = ''0 B'' \<and>
   formatBytes (Finite 1023) = ''1023 B'' \<and>
   formatBytes (Finite 1024) = ''1.0 KB'' \<and>
   formatBytes (Finite 1536) = ''1.5 KB'' \<and>
   formatBytes (Finite 1048576) = ''1.0 MB'' \<and>
   (\<forall>b. b < 0 \<longrightarrow> formatBytes (Finite b) = ''0 B'') \<and>
   (\<forall>n. \<not> isFinite n \<longrightarrow> formatBytes n = ''0 B'')"
proof -
  have "formatBytes (Finite 0) = ''0 B''" by (simp add: formatBytes_eval cong: let_weak_cong)
  moreover have "formatBytes (Finite 1023) = ''1023 B''" by (simp add: formatBytes_eval cong: let_weak_cong)
  moreover have "formatBytes (Finite 1024) = ''1.0 KB''" by (simp add: formatBytes_eval cong: let_weak_cong)
  moreover have "formatBytes (Finite 1536) = ''1.5 KB''" by (simp add: formatBytes_eval cong: let_weak_cong)
  moreover have "formatBytes (Finite 1048576) = ''1.0 MB''" by (simp add: formatBytes_eval cong: let_weak_cong)
  ultimately show ?thesis
    using formatBytes_negative formatBytes_not_finite by blast
qed

theorem formatBytes_examples_witness:
  "formatBytes (Finite (- 1)) = ''0 B'' \<and> formatBytes NaN = ''0 B'' \<and>
   formatBytes PosInfinity = ''0 B'' \<and> formatBytes NegInfinity = ''0 B''"
proof -
  have neg: "\<forall>b. b < 0 \<longrightarrow> formatBytes (Finite b) = ''0 B''"
    and inf: "\<forall>n. \<not> isFinite n \<longrightarrow> formatBytes n = ''0 B''"
    using formatBytes_examples by blast+
  have "formatBytes (Finite (- 1)) = ''0 B''" using neg by simp
  moreover have "formatBytes NaN = ''0 B''" using inf by simp
  moreover have "formatBytes PosInfinity = ''0 B''" using inf by simp
  moreover have "formatBytes NegInfinity = ''0 B''" using inf by simp
  ultimately show ?thesis by blast
qed

text \<open>
  The claim as it stands gives "1 KB" and "1 MB" for 1024 and 1048576; the function
  returns "1.0 KB" and "1.0 MB".
\<close>

theorem formatBytes_1024_counterexample:
  "formatBytes (Finite 1024) \<noteq> ''1 KB'' \<and> formatBytes (Finite 1048576) \<noteq> ''1 MB''"
  by (simp add: formatBytes_eval cong: let_weak_cong)

text \<open>
  C4 (as amended). formatBytes is a total function; a non-finite or negative input gives
  the string for zero bytes; every other input whose value in petabytes is below
  \<open>10 ^ 21\<close> is scaled by factors of 1024 through B, KB, MB, GB, TB, PB and written with
  no fractional digit when the scaled value is at least 100 or the unit is bytes, and
  with exactly one fractional digit in every other case: the one writing has no point in
  it, the other is digits, a point and one digit.
\<close>

theorem formatBytes_rendering_rule:
  "(\<forall>n. \<not> isFinite n \<longrightarrow> formatBytes n = formatBytes (Finite 0)) \<and>
   (\<forall>b. b < 0 \<longrightarrow> formatBytes (Finite b) = formatBytes (Finite 0)) \<and>
   (\<forall>b. 0 \<le> b \<and> b < 10 ^ 21 * 1024 ^ 5 \<longrightarrow> formatBytes (Finite b) = spec_formatBytes b) \<and>
   (\<forall>v. CHR ''.'' \<notin> set (spec_noFractionDigit v)) \<and>
   (\<forall>v. \<exists>w d. spec_oneFractionDigit v = w @ ''.'' @ [d] \<and> CHR ''.'' \<notin> set w \<and>
            d \<in> set ''0123456789'')"
proof -
  have zero: "formatBytes (Finite 0) = ''0 B''"
    by (simp add: formatBytes_eval cong: let_weak_cong)
  have whole: "CHR ''.'' \<notin> set (spec_noFractionDigit v)" for v
    unfolding spec_noFractionDigit_def by (rule decimal_no_point)
  have frac: "\<exists>w d. spec_oneFractionDigit v = w @ ''.'' @ [d] \<and> CHR ''.'' \<notin> set w \<and>
      d \<in> set ''0123456789''" for v
  proof (intro exI conjI)
    show "spec_oneFractionDigit v = decimal (roundHalfUp (10 * v) div 10) @ ''.''
        @ [digit (roundHalfUp (10 * v) mod 10)]"
      by (simp add: spec_oneFractionDigit_def)
    show "CHR ''.'' \<notin> set (decimal (roundHalfUp (10 * v) div 10))"
      by (rule decimal_no_point)
    show "digit (roundHalfUp (10 * v) mod 10) \<in> set ''0123456789''"
      by (rule digit_is_digit) simp
  qed
  have a: "\<forall>n. \<not> isFinite n \<longrightarrow> formatBytes n = formatBytes (Finite 0)"
    by (simp add: zero formatBytes_not_finite)
  have b: "\<forall>b. b < 0 \<longrightarrow> formatBytes (Finite b) = formatBytes (Finite 0)"
    by (simp add: zero formatBytes_negative)
  have c: "\<forall>b. 0 \<le> b \<and> b < 10 ^ 21 * 1024 ^ 5 \<longrightarrow>
      formatBytes (Finite b) = spec_formatBytes b"
    using formatBytes_spec by blast
  show ?thesis
  proof (intro conjI)
    show "\<forall>n. \<not> isFinite n \<longrightarrow> formatBytes n = formatBytes (Finite 0)" by (rule a)
    show "\<forall>b. b < 0 \<longrightarrow> formatBytes (Finite b) = formatBytes (Finite 0)" by (rule b)
    show "\<forall>b. 0 \<le> b \<and> b < 10 ^ 21 * 1024 ^ 5 \<longrightarrow>
        formatBytes (Finite b) = spec_formatBytes b" by (rule c)
    show "\<forall>v. CHR ''.'' \<notin> set (spec_noFractionDigit v)" by (intro allI whole)
    show "\<forall>v. \<exists>w d. spec_oneFractionDigit v = w @ ''.'' @ [d] \<and> CHR ''.'' \<notin> set w \<and>
        d \<in> set ''0123456789''" by (intro allI frac)
  qed
qed

theorem formatBytes_rendering_rule_witness:
  "formatBytes NegInfinity = formatBytes (Finite 0) \<and>
   formatBytes (Finite (- 5)) = formatBytes (Finite 0) \<and>
   formatBytes (Finite 1536) = spec_formatBytes 1536 \<and>
   spec_formatBytes 1536 = ''1.5 KB'' \<and>
   formatBytes (Finite 204800) = spec_formatBytes 204800 \<and>
   spec_formatBytes 204800 = ''200 KB''"
proof -
  have inf: "\<forall>n. \<not> isFinite n \<longrightarrow> formatBytes n = formatBytes (Finite 0)"
    and neg: "\<forall>b. b < 0 \<longrightarrow> formatBytes (Finite b) = formatBytes (Finite 0)"
    and fin: "\<forall>b. 0 \<le> b \<and> b < 10 ^ 21 * 1024 ^ 5 \<longrightarrow> formatBytes (Finite b) = spec_formatBytes b"
    using formatBytes_rendering_rule by blast+
  have "formatBytes NegInfinity = formatBytes (Finite 0)" using inf by simp
  moreover have "formatBytes (Finite (- 5)) = formatBytes (Finite 0)" using neg by simp
  moreover have "formatBytes (Finite 1536) = spec_formatBytes 1536" using fin by simp
  moreover have "formatBytes (Finite 204800) = spec_formatBytes 204800" using fin by simp
  moreover have "spec_formatBytes 1536 = ''1.5 KB''"
    by (simp add: spec_formatBytes_eval cong: let_weak_cong)
  moreover have "spec_formatBytes 204800 = ''200 KB''"
    by (simp add: spec_formatBytes_eval cong: let_weak_cong)
  ultimately show ?thesis by blast
qed

text \<open>
  Without the bound the claim fails: \<open>2 ^ 120\<close> bytes are \<open>2 ^ 70\<close> petabytes, at least
  \<open>10 ^ 21\<close>, where toFixed turns to exponential notation, fractional digits included.
\<close>

theorem formatBytes_huge_counterexample:
  "formatBytes (Finite (2 ^ 120)) = ''1.1805916207174113e+21 PB'' \<and>
   formatBytes (Finite (2 ^ 120)) \<noteq> spec_formatBytes (2 ^ 120)"
proof -
  have a: "formatBytes (Finite (2 ^ 120)) = ''1.1805916207174113e+21 PB''"
    by (simp add: formatBytes_eval numberToStringLarge_def shortestDigits.simps
        roundDouble_def bitLength.simps cong: let_weak_cong)
  have b: "spec_formatBytes (2 ^ 120) = ''1180591620717411303424 PB''"
    by (simp add: spec_formatBytes_eval cong: let_weak_cong)
  show ?thesis unfolding a b by simp
qed

section \<open>The stat dispatcher under a token that is never cancelled\<close>

lemma applyAll_Nil [simp]: "applyAll fs [] s = s"
  by (simp add: applyAll_def)

lemma applyAll_Cons [simp]:
  "applyAll fs (r # rs) s = applyAll fs rs (applyResult r (stat fs (requestUri r)) s)"
  by (simp add: applyAll_def)

lemma applyAll_append: "applyAll fs (xs @ ys) s = applyAll fs ys (applyAll fs xs s)"
  by (simp add: applyAll_def)

lemma fold_zip_stats:
  "fold (\<lambda>(request, st). applyResult request st) (zip xs (map (\<lambda>r. stat fs (requestUri r)) xs)) s
   = applyAll fs xs s"
  by (induction xs arbitrary: s) simp_all

lemma applyResult_fields [simp]:
  "clock (applyResult r st s) = clock s"
  "calls (applyResult r st s) = calls s"
  "visitedDirectories (applyResult r st s) = visitedDirectories s"
  by (cases r; cases "onResult r"; cases st; simp)+

lemma applyResult_clock_update:
  "applyResult r st (s\<lparr>clock := c\<rparr>) = (applyResult r st s)\<lparr>clock := c\<rparr>"
  by (cases r; cases "onResult r"; cases st; simp)

lemma applyResult_calls_update:
  "applyResult r st (s\<lparr>calls := c\<rparr>) = (applyResult r st s)\<lparr>calls := c\<rparr>"
  by (cases r; cases "onResult r"; cases st; simp)

lemma applyResult_totalSize:
  "totalSize (applyResult r (stat fs (requestUri r)) s) = totalSize s + statContribution fs r"
  by (cases r; cases "onResult r"; cases "stat fs (requestUri r)"; simp add: statContribution_def)

lemma applyResult_pending:
  "pendingDirectories (applyResult r (stat fs (requestUri r)) s)
   = pendingDirectories s @ statDiscovery fs r"
  by (cases r; cases "onResult r"; cases "stat fs (requestUri r)"; simp add: statDiscovery_def)

lemma applyAll_fields [simp]:
  "clock (applyAll fs rs s) = clock s"
  "calls (applyAll fs rs s) = calls s"
  "visitedDirectories (applyAll fs rs s) = visitedDirectories s"
  by (induction rs arbitrary: s; simp)+

lemma applyAll_clock_update:
  "applyAll fs rs (s\<lparr>clock := c\<rparr>) = (applyAll fs rs s)\<lparr>clock := c\<rparr>"
  by (induction rs arbitrary: s) (simp_all add: applyResult_clock_update)

lemma applyAll_calls_update:
  "applyAll fs rs (s\<lparr>calls := c\<rparr>) = (applyAll fs rs s)\<lparr>calls := c\<rparr>"
  by (induction rs arbitrary: s) (simp_all add: applyResult_calls_update)

lemma applyAll_totalSize:
  "totalSize (applyAll fs rs s) = totalSize s + (\<Sum>r \<leftarrow> rs. statContribution fs r)"
  by (induction rs arbitrary: s) (simp_all add: applyResult_totalSize)

lemma applyAll_pending:
  "pendingDirectories (applyAll fs rs s) = pendingDirectories s @ concat (map (statDiscovery fs) rs)"
  by (induction rs arbitrary: s) (simp_all add: applyResult_pending)

lemma thisStatConcurrency_pos: "0 < thisStatConcurrency options"
  by (simp add: thisStatConcurrency_def)

lemma chunksOf_Nil [simp]: "chunksOf n [] = []"
  by (simp add: chunksOf.simps)

lemma chunksOf_step: "0 < n \<Longrightarrow> xs \<noteq> [] \<Longrightarrow> chunksOf n xs = take n xs # chunksOf n (drop n xs)"
  by (subst chunksOf.simps) simp

lemma statChunks_uncancelled:
  assumes "\<And>c. \<not> token c"
  shows "statChunks options fs token requests i s =
     (applyAll fs (drop i requests) s)
       \<lparr>clock := clock s + length (chunksOf (thisStatConcurrency options) (drop i requests)),
        calls := calls s @ batches (thisStatConcurrency options) (drop i requests)\<rparr>"
proof (induction "length requests - i" arbitrary: i s rule: less_induct)
  case less
  let ?c = "thisStatConcurrency options"
  show ?case
  proof (cases "i < length requests")
    case False
    then show ?thesis
      by (subst statChunks.simps) (simp add: batches_def)
  next
    case True
    let ?slice = "take ?c (drop i requests)"
    let ?s1 = "s\<lparr>clock := clock s + 1,
                  calls := calls s @ [StatBatch (map requestUri ?slice)]\<rparr>"
    have ne: "drop i requests \<noteq> []" using True by simp
    have split: "drop i requests = ?slice @ drop (i + ?c) requests"
      by (metis add.commute append_take_drop_id drop_drop)
    have step: "statChunks options fs token requests i s
        = statChunks options fs token requests (i + ?c) (applyAll fs ?slice ?s1)"
      using True assms
      by (subst statChunks.simps) (simp add: fold_zip_stats Let_def)
    have ch: "chunksOf ?c (drop i requests) = ?slice # chunksOf ?c (drop (i + ?c) requests)"
      using chunksOf_step [OF thisStatConcurrency_pos ne, of options]
      by (simp add: add.commute)
    have "length requests - (i + ?c) < length requests - i"
      using True thisStatConcurrency_pos [of options] by linarith
    then have "statChunks options fs token requests (i + ?c) (applyAll fs ?slice ?s1)
        = (applyAll fs (drop (i + ?c) requests) (applyAll fs ?slice ?s1))
            \<lparr>clock := clock (applyAll fs ?slice ?s1)
                       + length (chunksOf ?c (drop (i + ?c) requests)),
             calls := calls (applyAll fs ?slice ?s1) @ batches ?c (drop (i + ?c) requests)\<rparr>"
      by (rule less)
    moreover have "applyAll fs (drop i requests) s
        = applyAll fs (drop (i + ?c) requests) (applyAll fs ?slice s)"
      by (subst split) (simp add: applyAll_append)
    ultimately show ?thesis
      unfolding step
      by (simp add: applyAll_clock_update applyAll_calls_update ch batches_def)
  qed
qed

section \<open>One iteration of the scan\<close>

lemma processStatRequests_uncancelled:
  assumes "\<And>c. \<not> token c"
  shows "processStatRequests options fs token requests s =
     (applyAll fs requests s)
       \<lparr>clock := clock s + length (chunksOf (thisStatConcurrency options) requests),
        calls := calls s @ batches (thisStatConcurrency options) requests\<rparr>"
  using assms
  by (simp add: processStatRequests_def statChunks_uncancelled batches_def)

lemma classifyEntries_uncancelled:
  "\<not> token (clock s) \<Longrightarrow>
   classifyEntries token cur entries s requests =
     (s\<lparr>pendingDirectories := pendingDirectories s @ pushed cur entries\<rparr>,
      requests @ queued cur entries)"
  by (induction entries arbitrary: s requests) (auto simp: Let_def)

lemma classifyEntries_cancelled:
  "token (clock s) \<Longrightarrow> classifyEntries token cur entries s requests = (s, requests)"
  by (cases entries) auto

text \<open>One iteration that lists a directory, the token not cancelled.\<close>

lemma iteration_listing:
  assumes tok: "\<And>c. \<not> token c"
    and pend: "pendingDirectories s = P @ [cur]"
    and fresh: "cur \<notin> visitedDirectories s"
    and rd: "readDirectory fs cur = Some entries"
  shows "totalSize (iteration options fs token s)
           = totalSize s + (\<Sum>r \<leftarrow> queued cur entries. statContribution fs r)"
    and "pendingDirectories (iteration options fs token s)
           = P @ pushed cur entries @ concat (map (statDiscovery fs) (queued cur entries))"
    and "visitedDirectories (iteration options fs token s) = insert cur (visitedDirectories s)"
    and "calls (iteration options fs token s)
           = calls s @ ReadDirectory cur # batches (thisStatConcurrency options) (queued cur entries)"
  using assms
  by (simp_all add: iteration_def Let_def classifyEntries_uncancelled
      processStatRequests_uncancelled applyAll_totalSize applyAll_pending)

lemma iteration_listing_fails:
  assumes pend: "pendingDirectories s = P @ [cur]"
    and fresh: "cur \<notin> visitedDirectories s"
    and rd: "readDirectory fs cur = None"
  shows "iteration options fs token s =
     s\<lparr>pendingDirectories := P, visitedDirectories := insert cur (visitedDirectories s),
       clock := clock s + 1, calls := calls s @ [ReadDirectory cur]\<rparr>"
  using assms by (simp add: iteration_def Let_def)

lemma iteration_visited:
  assumes pend: "pendingDirectories s = P @ [cur]"
    and seen: "cur \<in> visitedDirectories s"
  shows "iteration options fs token s = s\<lparr>pendingDirectories := P\<rparr>"
  using assms by (simp add: iteration_def Let_def)

lemma folderLoop_step:
  "pendingDirectories s \<noteq> [] \<Longrightarrow> \<not> token (clock s) \<Longrightarrow>
   folderLoop options fs token s = folderLoop options fs token (iteration options fs token s)"
  by (subst folderLoop.simps) simp

lemma folderLoop_stop:
  "pendingDirectories s = [] \<or> token (clock s) \<Longrightarrow> folderLoop options fs token s = Some s"
  by (subst folderLoop.simps) auto

section \<open>The scan of a directory tree\<close>







lemma flags [simp]:
  "File AND Directory = 0" "Directory AND Directory \<noteq> 0" "File AND File \<noteq> 0"
  "Directory AND File = 0" "File \<noteq> Directory" "Directory \<noteq> File"
  "0 < File" "0 < Directory"
  by (simp_all add: File_def Directory_def)

lemma fst_entry [simp]: "fst (entry e) = fst e"
  by (cases e) simp

lemma snd_entry [simp]: "snd (entry e) = nodeType (snd e)"
  by (cases e) simp



lemma statDiscovery_FileEntry [simp]: "statDiscovery fs (StatRequest v FileEntry) = []"
  by (simp add: statDiscovery_def split: option.splits)


lemma wellFormed_child:
  "wellFormed (DirectoryNode es) \<Longrightarrow> (n, c) \<in> set es \<Longrightarrow> wellFormed c \<and> map_of es n = Some c"
  by auto





lemma concat_no_discovery:
  "concat (map (statDiscovery fs) (map (\<lambda>e. StatRequest (f e) FileEntry) xs)) = []"
  by (induction xs) simp_all



lemma promiseAll_Some: "promiseAll (map (\<lambda>x. Some (f x)) xs) = Some (map f xs)"
  by (induction xs) simp_all





section \<open>The stat dispatcher under any token\<close>

lemma listed_append [simp]: "listed (xs @ ys) = listed xs @ listed ys"
  by (induction xs rule: listed.induct) simp_all

lemma statted_append [simp]: "statted (xs @ ys) = statted xs @ statted ys"
  by (induction xs rule: statted.induct) simp_all

lemma listed_map_StatBatch [simp]: "listed (map (\<lambda>x. StatBatch (f x)) xs) = []"
  by (induction xs) simp_all

lemma listed_batches [simp]: "listed (batches n requests) = []"
  unfolding batches_def by simp

lemma listed_take_batches [simp]: "listed (take j (batches n requests)) = []"
  unfolding batches_def take_map by simp

lemma take_length_append: "take (length a + k) (a @ b) = a @ take k b"
  by simp

text \<open>
  Whatever the token does, processStatRequests issues the first batches and applies the
  answers to a prefix of the requests.
\<close>

lemma statChunks_prefix:
  "\<exists>j k. statChunks options fs token requests i s =
     (applyAll fs (take k (drop i requests)) s)
       \<lparr>clock := clock s + j,
        calls := calls s @ take j (batches (thisStatConcurrency options) (drop i requests))\<rparr>"
proof (induction "length requests - i" arbitrary: i s rule: less_induct)
  case less
  let ?c = "thisStatConcurrency options"
  let ?slice = "take ?c (drop i requests)"
  let ?s1 = "s\<lparr>clock := clock s + 1, calls := calls s @ [StatBatch (map requestUri ?slice)]\<rparr>"
  consider (stop) "\<not> (i < length requests \<and> \<not> token (clock s))"
    | (cancelled) "i < length requests" "\<not> token (clock s)" "token (clock s + 1)"
    | (go) "i < length requests" "\<not> token (clock s)" "\<not> token (clock s + 1)"
    by blast
  then show ?case
  proof cases
    case stop
    then have "statChunks options fs token requests i s = s"
      by (subst statChunks.simps) auto
    then show ?thesis
      by (intro exI [of _ 0]) simp
  next
    case cancelled
    have ne: "drop i requests \<noteq> []" using cancelled(1) by simp
    have ch: "chunksOf ?c (drop i requests) = ?slice # chunksOf ?c (drop ?c (drop i requests))"
      using chunksOf_step [OF thisStatConcurrency_pos ne, of options] .
    have "statChunks options fs token requests i s = ?s1"
      using cancelled by (subst statChunks.simps) (simp add: Let_def)
    then show ?thesis
      by (intro exI [of _ 1] exI [of _ 0]) (simp add: batches_def ch)
  next
    case go
    have ne: "drop i requests \<noteq> []" using go(1) by simp
    have ch: "chunksOf ?c (drop i requests) = ?slice # chunksOf ?c (drop (i + ?c) requests)"
      using chunksOf_step [OF thisStatConcurrency_pos ne, of options]
      by (simp add: add.commute)
    have split: "drop i requests = ?slice @ drop (i + ?c) requests"
      by (metis add.commute append_take_drop_id drop_drop)
    have step: "statChunks options fs token requests i s
        = statChunks options fs token requests (i + ?c) (applyAll fs ?slice ?s1)"
      using go
      by (subst statChunks.simps) (simp add: fold_zip_stats Let_def)
    have "length requests - (i + ?c) < length requests - i"
      using go(1) thisStatConcurrency_pos [of options] by linarith
    from less [OF this, of "applyAll fs ?slice ?s1"]
    obtain j k where jk:
      "statChunks options fs token requests (i + ?c) (applyAll fs ?slice ?s1) =
         (applyAll fs (take k (drop (i + ?c) requests)) (applyAll fs ?slice ?s1))
           \<lparr>clock := clock (applyAll fs ?slice ?s1) + j,
            calls := calls (applyAll fs ?slice ?s1)
                     @ take j (batches ?c (drop (i + ?c) requests))\<rparr>"
      by blast
    have "take (length ?slice + k) (drop i requests)
        = ?slice @ take k (drop (i + ?c) requests)"
      by (metis split take_length_append)
    then have "applyAll fs (take (length ?slice + k) (drop i requests)) s
        = applyAll fs (take k (drop (i + ?c) requests)) (applyAll fs ?slice s)"
      by (simp add: applyAll_append)
    then show ?thesis
      unfolding step jk
      by (intro exI [of _ "Suc j"] exI [of _ "length ?slice + k"])
         (simp add: applyAll_clock_update applyAll_calls_update ch batches_def)
  qed
qed

lemma processStatRequests_prefix:
  "\<exists>j k. processStatRequests options fs token requests s =
     (applyAll fs (take k requests) s)
       \<lparr>clock := clock s + j,
        calls := calls s @ take j (batches (thisStatConcurrency options) requests)\<rparr>"
proof (cases "requests = [] \<or> token (clock s)")
  case True
  then have "processStatRequests options fs token requests s = s"
    by (simp add: processStatRequests_def)
  then show ?thesis by (intro exI [of _ 0]) simp
next
  case False
  then show ?thesis
    using statChunks_prefix [of options fs token requests 0 s]
    by (simp add: processStatRequests_def)
qed

lemma sum_list_take_le:
  fixes f :: "'a \<Rightarrow> nat"
  shows "sum_list (map f (take k xs)) \<le> sum_list (map f xs)"
  by (induction xs arbitrary: k) (auto simp: take_Cons' )

section \<open>The visited set\<close>

lemma applyAll_moves:
  "applyAll fs rs (s\<lparr>clock := a, calls := b\<rparr>) = (applyAll fs rs s)\<lparr>clock := a, calls := b\<rparr>"
  by (simp add: applyAll_clock_update applyAll_calls_update)

text \<open>One iteration that pops a directory not yet visited, whatever the token does.\<close>

lemma iteration_any:
  assumes pend: "pendingDirectories s = P @ [cur]"
    and fresh: "cur \<notin> visitedDirectories s"
  shows "\<exists>rs ps bs c'.
     iteration options fs token s =
       (applyAll fs rs (s\<lparr>pendingDirectories := P @ ps,
                           visitedDirectories := insert cur (visitedDirectories s)\<rparr>))
         \<lparr>clock := c', calls := calls s @ ReadDirectory cur # bs\<rparr> \<and>
     listed bs = [] \<and>
     (\<Sum>r \<leftarrow> rs. statContribution fs r) \<le> listingContribution fs cur"
proof (cases "readDirectory fs cur")
  case None
  have "iteration options fs token s =
      (applyAll fs [] (s\<lparr>pendingDirectories := P @ [],
                          visitedDirectories := insert cur (visitedDirectories s)\<rparr>))
        \<lparr>clock := clock s + 1, calls := calls s @ ReadDirectory cur # []\<rparr>"
    using iteration_listing_fails [OF pend fresh None] by simp
  then show ?thesis
    by (intro exI [of _ "[]"] exI) (auto simp: listingContribution_def)
next
  case (Some entries)
  let ?s3 = "s\<lparr>pendingDirectories := P, visitedDirectories := insert cur (visitedDirectories s),
               clock := clock s + 1, calls := calls s @ [ReadDirectory cur]\<rparr>"
  show ?thesis
  proof (cases "token (clock s + 1)")
    case True
    have "iteration options fs token s = ?s3\<lparr>clock := clock ?s3 + 1\<rparr>"
      using pend fresh Some True
      by (simp add: iteration_def Let_def classifyEntries_cancelled processStatRequests_def)
    then have "iteration options fs token s =
        (applyAll fs [] (s\<lparr>pendingDirectories := P @ [],
                            visitedDirectories := insert cur (visitedDirectories s)\<rparr>))
          \<lparr>clock := clock s + 2, calls := calls s @ ReadDirectory cur # []\<rparr>"
      by simp
    then show ?thesis
      by (intro exI [of _ "[]"] exI) (auto simp: listingContribution_def)
  next
    case False
    let ?rq = "queued cur entries"
    let ?s4 = "?s3\<lparr>pendingDirectories := P @ pushed cur entries\<rparr>"
    obtain j k where jk:
      "processStatRequests options fs token ?rq ?s4 =
         (applyAll fs (take k ?rq) ?s4)
           \<lparr>clock := clock ?s4 + j,
            calls := calls ?s4 @ take j (batches (thisStatConcurrency options) ?rq)\<rparr>"
      using processStatRequests_prefix by blast
    have "iteration options fs token s =
        (processStatRequests options fs token ?rq ?s4)
          \<lparr>clock := clock (processStatRequests options fs token ?rq ?s4) + 1\<rparr>"
      using pend fresh Some False
      by (simp add: iteration_def Let_def classifyEntries_uncancelled)
    then have "iteration options fs token s =
        (applyAll fs (take k ?rq)
           (s\<lparr>pendingDirectories := P @ pushed cur entries,
               visitedDirectories := insert cur (visitedDirectories s)\<rparr>))
          \<lparr>clock := clock s + 1 + j + 1,
           calls := calls s @ ReadDirectory cur
                    # take j (batches (thisStatConcurrency options) ?rq)\<rparr>"
      unfolding jk by (intro scan.equality) (simp_all add: applyAll_totalSize applyAll_pending)
    moreover have "(\<Sum>r \<leftarrow> take k ?rq. statContribution fs r) \<le> listingContribution fs cur"
      by (simp add: listingContribution_def Some sum_list_take_le)
    ultimately show ?thesis
      by (intro exI [of _ "take k ?rq"] exI [of _ "pushed cur entries"]
          exI [of _ "take j (batches (thisStatConcurrency options) ?rq)"] exI) simp
  qed
qed

lemma visitedInvariant_iteration:
  assumes "visitedInvariant fs s"
  shows "visitedInvariant fs (iteration options fs token s)"
proof (cases "pendingDirectories s" rule: rev_cases)
  case Nil
  then show ?thesis using assms by (simp add: iteration_def)
next
  case (snoc P cur)
  show ?thesis
  proof (cases "cur \<in> visitedDirectories s")
    case True
    then show ?thesis
      using assms iteration_visited [OF snoc True] by (simp add: visitedInvariant_def)
  next
    case False
    from iteration_any [OF snoc False, of options fs token]
    obtain rs ps bs c' where it:
      "iteration options fs token s =
         (applyAll fs rs (s\<lparr>pendingDirectories := P @ ps,
                             visitedDirectories := insert cur (visitedDirectories s)\<rparr>))
           \<lparr>clock := c', calls := calls s @ ReadDirectory cur # bs\<rparr>"
      "listed bs = []"
      "(\<Sum>r \<leftarrow> rs. statContribution fs r) \<le> listingContribution fs cur"
      by blast
    show ?thesis
      using assms False it(2,3)
      unfolding it(1) visitedInvariant_def
      by (simp add: applyAll_totalSize)
  qed
qed

lemma visitedInvariant_iterations:
  "visitedInvariant fs s \<Longrightarrow> visitedInvariant fs (iterations options fs token n s)"
  by (induction n arbitrary: s) (simp_all add: visitedInvariant_iteration)

lemma visitedInvariant_initialScan: "visitedInvariant fs (initialScan fld)"
  by (simp add: visitedInvariant_def initialScan_def)

lemma folderLoop_iterations:
  assumes "folderLoop options fs token s = Some s'"
  shows "\<exists>n. s' = iterations options fs token n s"
proof (rule folderLoop.raw_induct
    [where P = "\<lambda>options fs token s s'. \<exists>n. s' = iterations options fs token n s", OF _ assms])
  fix loop options fs token and s s' :: scan
  assume IH: "\<And>options fs token s y. loop options fs token s = Some y \<Longrightarrow>
                \<exists>n. y = iterations options fs token n s"
    and eq: "(if pendingDirectories s \<noteq> [] \<and> \<not> token (clock s)
              then loop options fs token (iteration options fs token s)
              else Some s) = Some s'"
  show "\<exists>n. s' = iterations options fs token n s"
  proof (cases "pendingDirectories s \<noteq> [] \<and> \<not> token (clock s)")
    case True
    then have "loop options fs token (iteration options fs token s) = Some s'"
      using eq by simp
    then obtain n where "s' = iterations options fs token n (iteration options fs token s)"
      using IH by blast
    then have "s' = iterations options fs token (Suc n) s"
      using True by simp
    then show ?thesis by blast
  next
    case False
    then have "s' = iterations options fs token 0 s"
      using eq by auto
    then show ?thesis by blast
  qed
qed


section \<open>Failing stat calls\<close>

lemmas scan_eval =
  scanFolder_def initialScan_def folderLoop.simps iteration_def processStatRequests_def
  statChunks.simps thisStatConcurrency_def DEFAULT_CONCURRENCY_def joinPath_def
  Unknown_def File_def Directory_def SymbolicLink_def neverCancelled_def Let_def
  workspaceW_def defaultOptions_def

lemma queued_append: "queued cur (xs @ ys) = queued cur xs @ queued cur ys"
  by (induction xs rule: queued.induct) simp_all

lemma pushed_append: "pushed cur (xs @ ys) = pushed cur xs @ pushed cur ys"
  by (induction xs rule: pushed.induct) simp_all

lemma pushed_files:
  "\<forall>e \<in> set entries. snd e AND Directory = 0 \<and> snd e AND File \<noteq> 0 \<Longrightarrow> pushed cur entries = []"
  by (induction entries) auto

lemma queued_files:
  "\<forall>e \<in> set entries. snd e AND Directory = 0 \<and> snd e AND File \<noteq> 0 \<Longrightarrow>
   queued cur entries = map (\<lambda>e. StatRequest (joinPath cur (fst e)) FileEntry) entries"
  by (induction entries) auto

lemma statContribution_None: "stat fs (requestUri r) = None \<Longrightarrow> statContribution fs r = 0"
  by (simp add: statContribution_def)

text \<open>
  C6. When the stat call of one request fails, that request adds nothing to the total and
  every other request of the batch adds what it adds on its own; the scan of a folder
  whose entries are all listed as files returns the sum over the other entries, and
  calculate returns it: there is no error to propagate.
\<close>

theorem stat_failure_is_local:
  assumes "stat fs (requestUri r) = None"
  shows "totalSize (processStatRequests options fs neverCancelled (before @ r # after) s)
           = totalSize s + (\<Sum>q \<leftarrow> before @ after. statContribution fs q) \<and>
         (readDirectory fs (uri fld) = Some (es1 @ (nm, ty) # es2) \<and>
          (\<forall>e \<in> set (es1 @ (nm, ty) # es2). snd e AND Directory = 0 \<and> snd e AND File \<noteq> 0) \<and>
          r = StatRequest (joinPath (uri fld) nm) FileEntry \<longrightarrow>
          calculate options fs neverCancelled [fld]
            = Some [\<lparr>folder = fld,
                     folderSize = (\<Sum>e \<leftarrow> es1 @ es2.
                        statContribution fs (StatRequest (joinPath (uri fld) (fst e)) FileEntry))\<rparr>])"
proof (intro conjI impI)
  have tok: "\<And>c. \<not> neverCancelled c" by (simp add: neverCancelled_def)
  show "totalSize (processStatRequests options fs neverCancelled (before @ r # after) s)
      = totalSize s + (\<Sum>q \<leftarrow> before @ after. statContribution fs q)"
    using assms
    by (simp add: processStatRequests_uncancelled [OF tok] applyAll_totalSize statContribution_None)
next
  assume a: "readDirectory fs (uri fld) = Some (es1 @ (nm, ty) # es2) \<and>
    (\<forall>e \<in> set (es1 @ (nm, ty) # es2). snd e AND Directory = 0 \<and> snd e AND File \<noteq> 0) \<and>
    r = StatRequest (joinPath (uri fld) nm) FileEntry"
  let ?entries = "es1 @ (nm, ty) # es2"
  let ?s = "initialScan fld"
  let ?s1 = "iteration options fs neverCancelled ?s"
  have tok: "\<And>c. \<not> neverCancelled c" by (simp add: neverCancelled_def)
  have rd: "readDirectory fs (uri fld) = Some ?entries"
    and files: "\<forall>e \<in> set ?entries. snd e AND Directory = 0 \<and> snd e AND File \<noteq> 0"
    and r: "r = StatRequest (joinPath (uri fld) nm) FileEntry"
    using a by blast+
  have pend: "pendingDirectories ?s = [] @ [uri fld]" and new: "uri fld \<notin> visitedDirectories ?s"
    by (simp_all add: initialScan_def)
  have q: "queued (uri fld) ?entries
      = map (\<lambda>e. StatRequest (joinPath (uri fld) (fst e)) FileEntry) ?entries"
    using files by (rule queued_files)
  have "pendingDirectories ?s1 = []"
    by (simp add: iteration_listing(2) [OF tok pend new rd] pushed_files [OF files] q
        concat_no_discovery)
  then have stop: "folderLoop options fs neverCancelled ?s1 = Some ?s1"
    by (intro folderLoop_stop) simp
  have "folderLoop options fs neverCancelled ?s = folderLoop options fs neverCancelled ?s1"
    using tok by (intro folderLoop_step) (simp_all add: initialScan_def)
  then have run: "scanFolder options fs neverCancelled fld = Some ?s1"
    using stop by (simp add: scanFolder_def)
  have "statContribution fs (StatRequest (joinPath (uri fld) nm) FileEntry) = 0"
    using assms r by (simp add: statContribution_None)
  then have "totalSize ?s1 = (\<Sum>e \<leftarrow> es1 @ es2.
      statContribution fs (StatRequest (joinPath (uri fld) (fst e)) FileEntry))"
    by (simp add: iteration_listing(1) [OF tok pend new rd] q comp_def) (simp add: initialScan_def)
  then show "calculate options fs neverCancelled [fld]
      = Some [\<lparr>folder = fld,
               folderSize = (\<Sum>e \<leftarrow> es1 @ es2.
                  statContribution fs (StatRequest (joinPath (uri fld) (fst e)) FileEntry))\<rparr>]"
    by (simp add: calculate_def calculateFolderSize_def run)
qed

theorem stat_failure_is_local_witness:
  "totalSize (processStatRequests defaultOptions failingStatFs neverCancelled
       ([StatRequest [''w'', ''a''] FileEntry] @ StatRequest [''w'', ''b''] FileEntry
          # [StatRequest [''w'', ''c''] FileEntry])
       (initialScan workspaceW)) = 40 \<and>
   calculate defaultOptions failingStatFs neverCancelled [workspaceW]
     = Some [\<lparr>folder = workspaceW, folderSize = 40\<rparr>]"
proof -
  have fail: "stat failingStatFs (requestUri (StatRequest [''w'', ''b''] FileEntry)) = None"
    by (simp add: failingStatFs_def)
  note inst = stat_failure_is_local [OF fail, of defaultOptions
      "[StatRequest [''w'', ''a''] FileEntry]" "[StatRequest [''w'', ''c''] FileEntry]"
      "initialScan workspaceW" workspaceW "[(''a'', File)]" "''b''" File "[(''c'', File)]"]
  have c: "statContribution failingStatFs (StatRequest [''w'', ''a''] FileEntry) = 10"
    "statContribution failingStatFs (StatRequest [''w'', ''c''] FileEntry) = 30"
    by (simp_all add: statContribution_def failingStatFs_def File_def)
  have "totalSize (processStatRequests defaultOptions failingStatFs neverCancelled
       ([StatRequest [''w'', ''a''] FileEntry] @ StatRequest [''w'', ''b''] FileEntry
          # [StatRequest [''w'', ''c''] FileEntry])
       (initialScan workspaceW)) = 40"
    using inst [THEN conjunct1] by (simp add: c initialScan_def)
  moreover have "calculate defaultOptions failingStatFs neverCancelled [workspaceW]
     = Some [\<lparr>folder = workspaceW, folderSize = 40\<rparr>]"
  proof -
    have rd: "readDirectory failingStatFs (uri workspaceW)
        = Some ([(''a'', File)] @ (''b'', File) # [(''c'', File)])"
      by (simp add: failingStatFs_def workspaceW_def)
    have files: "\<forall>e \<in> set ([(''a'', File)] @ (''b'', File) # [(''c'', File)]).
        snd e AND Directory = 0 \<and> snd e AND File \<noteq> 0"
      by (simp add: File_def Directory_def)
    have req: "StatRequest [''w'', ''b''] FileEntry
        = StatRequest (joinPath (uri workspaceW) ''b'') FileEntry"
      by (simp add: joinPath_def workspaceW_def)
    have u: "joinPath (uri workspaceW) ''a'' = [''w'', ''a'']"
      "joinPath (uri workspaceW) ''c'' = [''w'', ''c'']"
      by (simp_all add: joinPath_def workspaceW_def)
    from inst [THEN conjunct2, rule_format, OF conjI [OF rd conjI [OF files req]]]
    show ?thesis by (simp add: u c)
  qed
  ultimately show ?thesis by blast
qed

lemma twoPaths_run:
  "scanFolder defaultOptions twoPathsFs neverCancelled workspaceW =
     Some \<lparr>totalSize = 5, pendingDirectories = [],
           visitedDirectories = {[''w'', ''d''], [''w'']}, clock = 5,
           calls = [ReadDirectory [''w''], ReadDirectory [''w'', ''d''],
                    StatBatch [[''w'', ''d'', ''f'']]]\<rparr>"
  by (simp add: scan_eval twoPathsFs_def cong: let_weak_cong)

section \<open>The guard of the visited set, failing listings\<close>

text \<open>
  C5. Within the scan of one folder the directories listed so far are exactly the visited
  ones and none of them has been listed twice, and the total holds at most the contents
  of each of them once. This holds at the start, every iteration of the loop preserves
  it, so it holds after any number of iterations and in the state the scan returns. A
  directory pushed twice is listed once.
\<close>

theorem visited_guard:
  "visitedInvariant fs (initialScan fld) \<and>
   (\<forall>s. visitedInvariant fs s \<longrightarrow> visitedInvariant fs (iteration options fs token s)) \<and>
   (\<forall>n. visitedInvariant fs (iterations options fs token n (initialScan fld))) \<and>
   (\<forall>s'. scanFolder options fs token fld = Some s' \<longrightarrow> visitedInvariant fs s')"
proof (intro conjI allI impI)
  show "visitedInvariant fs (initialScan fld)"
    by (rule visitedInvariant_initialScan)
  show "visitedInvariant fs (iteration options fs token s)" if "visitedInvariant fs s" for s
    using that by (rule visitedInvariant_iteration)
  show "visitedInvariant fs (iterations options fs token n (initialScan fld))" for n
    by (intro visitedInvariant_iterations visitedInvariant_initialScan)
  show "visitedInvariant fs s'" if "scanFolder options fs token fld = Some s'" for s'
  proof -
    from that obtain n where "s' = iterations options fs token n (initialScan fld)"
      unfolding scanFolder_def using folderLoop_iterations by blast
    then show ?thesis
      by (simp add: visitedInvariant_iterations visitedInvariant_initialScan)
  qed
qed

theorem visited_guard_witness:
  "scanFolder defaultOptions twoPathsFs neverCancelled workspaceW =
     Some \<lparr>totalSize = 5, pendingDirectories = [],
           visitedDirectories = {[''w'', ''d''], [''w'']}, clock = 5,
           calls = [ReadDirectory [''w''], ReadDirectory [''w'', ''d''],
                    StatBatch [[''w'', ''d'', ''f'']]]\<rparr> \<and>
   visitedInvariant twoPathsFs
     \<lparr>totalSize = 5, pendingDirectories = [],
      visitedDirectories = {[''w'', ''d''], [''w'']}, clock = 5,
      calls = [ReadDirectory [''w''], ReadDirectory [''w'', ''d''],
               StatBatch [[''w'', ''d'', ''f'']]]\<rparr> \<and>
   pendingDirectories (iteration defaultOptions twoPathsFs neverCancelled (initialScan workspaceW))
     = [[''w'', ''d''], [''w'', ''d'']] \<and>
   visitedInvariant twoPathsFs
     (iteration defaultOptions twoPathsFs neverCancelled (initialScan workspaceW))"
proof -
  note g = visited_guard [of twoPathsFs workspaceW defaultOptions neverCancelled]
  have a: "visitedInvariant twoPathsFs (initialScan workspaceW)"
    using g by blast
  have b: "visitedInvariant twoPathsFs
     (iteration defaultOptions twoPathsFs neverCancelled (initialScan workspaceW))"
    using g a by blast
  have c: "pendingDirectories
      (iteration defaultOptions twoPathsFs neverCancelled (initialScan workspaceW))
     = [[''w'', ''d''], [''w'', ''d'']]"
    by (simp add: scan_eval twoPathsFs_def cong: let_weak_cong)
  show ?thesis
    using g twoPaths_run b c by simp
qed



section \<open>The concurrency limit, cancellation before the start\<close>





text \<open>
  C9. When the token is already cancelled as calculate begins, calculate returns one
  result of size 0 for each folder, in the order of the folders, and the scan of no
  folder issues a listing or a stat call; processStatRequests, called with a cancelled
  token, returns at once.
\<close>

theorem cancelled_before_start:
  "(token 0 \<longrightarrow>
      calculate options fs token folders
        = Some (map (\<lambda>fld. \<lparr>folder = fld, folderSize = 0\<rparr>) folders) \<and>
      (\<forall>fld. map_option calls (scanFolder options fs token fld) = Some [])) \<and>
   (token (clock s) \<longrightarrow> processStatRequests options fs token requests s = s)"
proof (intro conjI impI allI)
  assume t: "token 0"
  have run: "scanFolder options fs token fld = Some (initialScan fld)" for fld
    unfolding scanFolder_def using t by (intro folderLoop_stop) (simp add: initialScan_def)
  show "map_option calls (scanFolder options fs token fld) = Some []" for fld
    by (simp add: run initialScan_def)
  have "calculateFolderSize options fs token fld = Some 0" for fld
    by (simp add: calculateFolderSize_def run initialScan_def)
  then show "calculate options fs token folders
      = Some (map (\<lambda>fld. \<lparr>folder = fld, folderSize = 0\<rparr>) folders)"
    by (simp add: calculate_def promiseAll_Some)
next
  assume "token (clock s)"
  then show "processStatRequests options fs token requests s = s"
    by (simp add: processStatRequests_def)
qed

theorem cancelled_before_start_witness:
  "calculate defaultOptions twoPathsFs (\<lambda>c. True) [workspaceW, workspaceW]
     = Some [\<lparr>folder = workspaceW, folderSize = 0\<rparr>, \<lparr>folder = workspaceW, folderSize = 0\<rparr>] \<and>
   map_option calls (scanFolder defaultOptions twoPathsFs (\<lambda>c. True) workspaceW) = Some [] \<and>
   processStatRequests defaultOptions twoPathsFs (\<lambda>c. True)
       [StatRequest [''w'', ''d'', ''f''] FileEntry] (initialScan workspaceW)
     = initialScan workspaceW"
  using cancelled_before_start [of "\<lambda>c. True" defaultOptions twoPathsFs "[workspaceW, workspaceW]"
      "initialScan workspaceW" "[StatRequest [''w'', ''d'', ''f''] FileEntry]"]
  by simp

section \<open>Symbolic links\<close>
























end
